theory Spec2Isabelle
  imports Main
begin

section \<open>JavaScript strings\<close>

text \<open>
  A JavaScript string is a sequence of UTF-16 code units. A code unit is modelled by its
  number, so that the white space of \<^verbatim>\<open>String.prototype.trim\<close> and of the regular
  expression class \<^verbatim>\<open>\s\<close>, which reaches beyond ASCII, is the one of the language.
  String literals of the source are written with \<open>ascii\<close>.
\<close>

type_synonym jsstring = "nat list"

definition ascii :: "string \<Rightarrow> jsstring" where
  "ascii s = map of_char s"

text \<open>
  WhiteSpace and LineTerminator of ECMAScript: TAB, LF, VT, FF, CR, SP, NBSP, U+1680,
  U+2000 to U+200A, LS, PS, U+202F, U+205F, U+3000 and U+FEFF.
\<close>

definition isWhiteSpace :: "nat \<Rightarrow> bool" where
  "isWhiteSpace c =
     (c = 9 \<or> c = 10 \<or> c = 11 \<or> c = 12 \<or> c = 13 \<or> c = 32 \<or> c = 160 \<or> c = 5760
      \<or> (8192 \<le> c \<and> c \<le> 8202) \<or> c = 8232 \<or> c = 8233 \<or> c = 8239 \<or> c = 8287
      \<or> c = 12288 \<or> c = 65279)"

text \<open>\<^verbatim>\<open>s.trim()\<close>: white space removed at both ends.\<close>

definition trim :: "jsstring \<Rightarrow> jsstring" where
  "trim s = rev (dropWhile isWhiteSpace (rev (dropWhile isWhiteSpace s)))"

text \<open>A string in a condition: the empty string is falsy, every other string truthy.\<close>

definition truthy :: "jsstring \<Rightarrow> bool" where
  "truthy s = (s \<noteq> [])"

text \<open>\<^verbatim>\<open>s.startsWith(p)\<close> and the test that \<open>p\<close> ends \<open>s\<close>.\<close>

definition startsWith :: "jsstring \<Rightarrow> jsstring \<Rightarrow> bool" where
  "startsWith s p = (take (length p) s = p)"

definition endsWith :: "jsstring \<Rightarrow> jsstring \<Rightarrow> bool" where
  "endsWith s p = (length p \<le> length s \<and> drop (length s - length p) s = p)"

section \<open>InputArea: collecting the input and submitting it\<close>

text \<open>Of a browser \<^verbatim>\<open>File\<close> the component reads only the MIME type; the name tells files apart.\<close>

record file_obj =
  fileName :: jsstring
  fileType :: jsstring

text \<open>The three \<^verbatim>\<open>useState\<close> cells of \<^verbatim>\<open>InputArea\<close> that the handlers read and write.\<close>

record input_state =
  url :: jsstring
  instructions :: jsstring
  attachedFiles :: "file_obj list"

definition initialInput :: input_state where
  "initialInput = \<lparr>url = [], instructions = [], attachedFiles = []\<rparr>"

text \<open>An input of the first scenario of the specification: a URL and instructions, no image.\<close>

definition exampleInput :: input_state where
  "exampleInput =
     \<lparr>url = ascii ''https://linear.app'', instructions = ascii ''show issue creation'',
      attachedFiles = []\<rparr>"

definition isImage :: "file_obj \<Rightarrow> bool" where
  "isImage f = startsWith (fileType f) (ascii ''image/'')"

text \<open>
  \<^verbatim>\<open>handlePaste\<close>: nothing while disabled or generating; otherwise, when the clipboard
  carries files, the images among them are appended, if there is one.
\<close>

definition handlePaste :: "bool \<Rightarrow> bool \<Rightarrow> file_obj list \<Rightarrow> input_state \<Rightarrow> input_state" where
  "handlePaste disabled isGenerating clipboardFiles st =
     (if disabled \<or> isGenerating then st
      else if length clipboardFiles > 0 then
        (let newFiles = filter isImage clipboardFiles
         in if length newFiles > 0
            then st\<lparr>attachedFiles := attachedFiles st @ newFiles\<rparr>
            else st)
      else st)"

text \<open>\<^verbatim>\<open>handleFileChange\<close>: every file of the picker is appended; no guard, no filter.\<close>

definition handleFileChange :: "file_obj list \<Rightarrow> input_state \<Rightarrow> input_state" where
  "handleFileChange targetFiles st =
     (if length targetFiles > 0
      then (let newFiles = targetFiles
            in st\<lparr>attachedFiles := attachedFiles st @ newFiles\<rparr>)
      else st)"

text \<open>\<^verbatim>\<open>handleDrop\<close>: as the paste handler, without the test that an image is left.\<close>

definition handleDrop :: "bool \<Rightarrow> bool \<Rightarrow> file_obj list \<Rightarrow> input_state \<Rightarrow> input_state" where
  "handleDrop disabled isGenerating droppedFiles st =
     (if disabled \<or> isGenerating then st
      else if length droppedFiles > 0 then
        (let newFiles = filter isImage droppedFiles
         in st\<lparr>attachedFiles := attachedFiles st @ newFiles\<rparr>)
      else st)"

text \<open>
  The condition that \<^verbatim>\<open>handleSubmit\<close> returns on, which is also the first disjunct of the
  button's \<^verbatim>\<open>disabled\<close> attribute:
  \<^verbatim>\<open>!url.trim() && !instructions.trim() && attachedFiles.length === 0\<close>.
\<close>

definition nothingToSubmit :: "input_state \<Rightarrow> bool" where
  "nothingToSubmit st =
     (\<not> truthy (trim (url st)) \<and> \<not> truthy (trim (instructions st))
      \<and> length (attachedFiles st) = 0)"

text \<open>
  \<^verbatim>\<open>handleSubmit\<close> returns the new state and the arguments of the call of
  \<^verbatim>\<open>onGenerate\<close>, if it makes one. The handler has no \<^verbatim>\<open>throw\<close> and calls nothing
  that raises, so it has no error result.
\<close>

definition handleSubmit ::
  "input_state \<Rightarrow> input_state \<times> (jsstring \<times> jsstring \<times> file_obj list) option" where
  "handleSubmit st =
     (if nothingToSubmit st then (st, None)
      else (st\<lparr>instructions := [], attachedFiles := []\<rparr>,
            Some (url st, instructions st, attachedFiles st)))"

text \<open>The \<^verbatim>\<open>disabled\<close> attribute of the submit button.\<close>

definition submitDisabled :: "input_state \<Rightarrow> bool \<Rightarrow> bool" where
  "submitDisabled st isGenerating =
     ((\<not> truthy (trim (url st)) \<and> \<not> truthy (trim (instructions st))
       \<and> length (attachedFiles st) = 0) \<or> isGenerating)"

section \<open>gemini.ts: the request and the response\<close>

record ImageAttachment =
  base64 :: jsstring
  mimeType :: jsstring

text \<open>
  An element of the \<^verbatim>\<open>parts\<close> array: \<^verbatim>\<open>{ text }\<close> or
  \<^verbatim>\<open>{ inlineData: { data, mimeType } }\<close>.
\<close>

datatype part = TextPart jsstring | InlineData jsstring jsstring

text \<open>A number in a template literal: the decimal digits of an array length.\<close>

fun numberToString :: "nat \<Rightarrow> jsstring" where
  "numberToString n =
     (if n < 10 then [48 + n] else numberToString (n div 10) @ [48 + n mod 10])"

definition newline :: jsstring where
  "newline = [10]"

definition dquote :: jsstring where
  "dquote = [34]"

text \<open>
  The template literal \<^verbatim>\<open>finalPrompt\<close>: four fixed chunks of text, bracketed below, with
  the three substitutions between them.
\<close>

definition finalPrompt :: "jsstring \<Rightarrow> jsstring \<Rightarrow> ImageAttachment list \<Rightarrow> jsstring" where
  "finalPrompt url' instructions' images =
     (newline
      @ ascii ''  *** DESKTOP SCREENCAST GENERATION REQUEST ***'' @ newline
      @ ascii ''  '' @ newline
      @ ascii ''  TARGET URL: '' @ dquote)
     @ url'
     @ (dquote @ newline
        @ ascii ''  USER INSTRUCTIONS/FLOW: '' @ dquote)
     @ instructions'
     @ (dquote @ newline
        @ ascii ''  ATTACHED REFERENCE IMAGES: '')
     @ numberToString (length images)
     @ (newline
        @ ascii ''  '' @ newline
        @ ascii ''  TASK:'' @ newline
        @ ascii ''  1. ANALYZE the URL and any attached images to determine the brand, color palette, and layout.'' @ newline
        @ ascii ''  2. GENERATE a high-fidelity HTML/CSS/JS simulation of this website inside a browser frame.'' @ newline
        @ ascii ''  3. ANIMATE the cursor and scroll behavior to match the '' @ dquote
          @ ascii ''User Instructions'' @ dquote @ ascii ''.'' @ newline
        @ ascii ''  4. IF IMAGES are provided, incorporate them intelligently (e.g., as the main page content or as feature sections).'' @ newline
        @ ascii ''  5. ADD a Loom-style presenter bubble narrating the flow described.'' @ newline
        @ ascii ''  6. IMPLEMENT Web Speech API for real-time voice narration of the script.'' @ newline
        @ ascii ''  '' @ newline
        @ ascii ''  GENERATE THE FULL HTML/JS/CSS NOW.'' @ newline
        @ ascii ''  '')"

text \<open>
  \<^verbatim>\<open>parts.push(x)\<close> puts \<open>x\<close> at the end of the array, and \<^verbatim>\<open>images.forEach\<close> visits
  the images from the first to the last: a left fold over the attachments, starting from
  the empty array with the text part pushed.
\<close>

definition push :: "'a list \<Rightarrow> 'a \<Rightarrow> 'a list" where
  "push xs x = xs @ [x]"

definition requestParts :: "jsstring \<Rightarrow> jsstring \<Rightarrow> ImageAttachment list \<Rightarrow> part list" where
  "requestParts url' instructions' images =
     foldl (\<lambda>parts img. push parts (InlineData (base64 img) (mimeType img)))
       (push [] (TextPart (finalPrompt url' instructions' images))) images"

text \<open>
  \<^verbatim>\<open>text.replace(/^lit\s*/, '')\<close> for a literal \<open>lit\<close>: the pattern is anchored at the start
  and \<^verbatim>\<open>\s*\<close> is greedy with nothing after it, so a match is the literal and all the
  white space that follows it.
\<close>

definition replaceLeading :: "jsstring \<Rightarrow> jsstring \<Rightarrow> jsstring" where
  "replaceLeading lit s =
     (if startsWith s lit then dropWhile isWhiteSpace (drop (length lit) s) else s)"

text \<open>
  \<^verbatim>\<open>text.replace(/lit$/, '')\<close>: without the \<^verbatim>\<open>m\<close> flag \<^verbatim>\<open>$\<close> is the end of the input, so
  the only match is the literal as the last characters.
\<close>

definition replaceTrailing :: "jsstring \<Rightarrow> jsstring \<Rightarrow> jsstring" where
  "replaceTrailing lit s =
     (if endsWith s lit then take (length s - length lit) s else s)"

definition fence :: jsstring where
  "fence = ascii ''```''"

definition fenceHtml :: jsstring where
  "fenceHtml = ascii ''```html''"

text \<open>The clean-up of the response text, the three \<^verbatim>\<open>replace\<close> calls in their order.\<close>

definition stripFences :: "jsstring \<Rightarrow> jsstring" where
  "stripFences text = replaceTrailing fence (replaceLeading fence (replaceLeading fenceHtml text))"

text \<open>
  \<^verbatim>\<open>response.text || "<!-- Failed to generate content -->"\<close>: a missing text and the empty
  text both give the placeholder.
\<close>

definition responseText :: "jsstring option \<Rightarrow> jsstring" where
  "responseText t =
     (case t of
        None \<Rightarrow> ascii ''<!-- Failed to generate content -->''
      | Some s \<Rightarrow> if truthy s then s else ascii ''<!-- Failed to generate content -->'')"

text \<open>
  \<^verbatim>\<open>bringToLife\<close> over the remote call, which is a parameter: it takes the parts and gives
  the response's text or the error it rejects with. The error is logged and thrown again.
\<close>

definition bringToLife ::
  "(part list \<Rightarrow> 'e + jsstring option) \<Rightarrow> jsstring \<Rightarrow> jsstring \<Rightarrow> ImageAttachment list
     \<Rightarrow> 'e + jsstring" where
  "bringToLife generateContent url' instructions' images =
     (case generateContent (requestParts url' instructions' images) of
        Inl err \<Rightarrow> Inl err
      | Inr t \<Rightarrow> Inr (stripFences (responseText t)))"

section \<open>Hero.tsx: LivePreview\<close>

text \<open>
  Modelled from the spec: the type \<^verbatim>\<open>Creation\<close>, which \<^verbatim>\<open>Hero.tsx\<close> imports from
  \<^verbatim>\<open>./CreationHistory\<close>; the fields are the ones that \<^verbatim>\<open>LivePreview\<close> reads,
  \<^verbatim>\<open>{ name: string, html: string, originalImage?: string }\<close>.
\<close>

record creation =
  name :: jsstring
  html :: jsstring
  originalImage :: "jsstring option"

text \<open>The \<^verbatim>\<open>useState\<close> cells of \<^verbatim>\<open>LivePreview\<close>.\<close>

record preview_state =
  loadingStep :: nat
  showSplitView :: bool
  copiedPrompt :: bool
  isRecording :: bool

text \<open>
  \<^verbatim>\<open>creation?.originalImage\<close> as a condition: false for no creation, for a creation
  without the field, and for the empty string.
\<close>

definition originalImageTruthy :: "creation option \<Rightarrow> bool" where
  "originalImageTruthy c =
     (case c of
        None \<Rightarrow> False
      | Some cr \<Rightarrow> (case originalImage cr of None \<Rightarrow> False | Some img \<Rightarrow> truthy img))"

text \<open>
  Modelled from the spec: the content of \<^verbatim>\<open>originalImage\<close>, set by code that is not in
  \<^verbatim>\<open>Hero.tsx\<close>: ``a data-URL of the first reference image or a PDF data-URL''. A
  creation is well formed when its reference image, if it has one, is a data URL.
\<close>

definition isDataUrl :: "jsstring \<Rightarrow> bool" where
  "isDataUrl img = startsWith img (ascii ''data:'')"

definition creationWellFormed :: "creation \<Rightarrow> bool" where
  "creationWellFormed cr =
     (case originalImage cr of None \<Rightarrow> True | Some img \<Rightarrow> isDataUrl img)"

text \<open>The effect with the dependency \<^verbatim>\<open>[creation]\<close>, run when the creation changes.\<close>

definition creationEffect :: "creation option \<Rightarrow> preview_state \<Rightarrow> preview_state" where
  "creationEffect c st =
     (if originalImageTruthy c then st\<lparr>showSplitView := True\<rparr>
      else st\<lparr>showSplitView := False\<rparr>)"

text \<open>
  \<^verbatim>\<open>/[^a-z0-9]/gi\<close>: with the \<^verbatim>\<open>i\<close> flag and no \<^verbatim>\<open>u\<close> flag a code unit outside ASCII is
  never folded onto an ASCII letter, so the class excludes the ASCII letters of both cases
  and the digits, and matches every other code unit.
\<close>

definition isAlnum :: "nat \<Rightarrow> bool" where
  "isAlnum c = ((97 \<le> c \<and> c \<le> 122) \<or> (48 \<le> c \<and> c \<le> 57) \<or> (65 \<le> c \<and> c \<le> 90))"

text \<open>\<^verbatim>\<open>s.replace(/[^a-z0-9]/gi, '_')\<close>: every match becomes one underscore.\<close>

definition replaceNonAlnum :: "jsstring \<Rightarrow> jsstring" where
  "replaceNonAlnum s = map (\<lambda>c. if isAlnum c then c else 95) s"

text \<open>
  \<^verbatim>\<open>toLowerCase\<close> on ASCII: the upper-case letters move to lower case, the rest of ASCII
  stays. The source applies it to the result of the replacement only, which is ASCII.
\<close>

definition toLowerCase :: "jsstring \<Rightarrow> jsstring" where
  "toLowerCase s = map (\<lambda>c. if 65 \<le> c \<and> c \<le> 90 then c + 32 else c) s"

text \<open>
  An element of the array handed to \<^verbatim>\<open>new Blob\<close>: a string, as the document is, or a
  chunk of recorded data. How the blob encodes a string is the browser's matter.
\<close>

datatype blob_part = StringPart jsstring | DataPart "nat list"

text \<open>
  A download that a handler triggers: the parts and the type of the blob, and the file
  name.
\<close>

record download =
  blobParts :: "blob_part list"
  blobType :: jsstring
  downloadName :: jsstring

definition handleDownloadHtml :: "creation option \<Rightarrow> download option" where
  "handleDownloadHtml c =
     (case c of
        None \<Rightarrow> None
      | Some cr \<Rightarrow>
          Some \<lparr>blobParts = [StringPart (html cr)], blobType = ascii ''text/html'',
                downloadName = toLowerCase (replaceNonAlnum (name cr)) @ ascii ''.html''\<rparr>)"

text \<open>
  The recorder's \<^verbatim>\<open>onstop\<close> handler, which closes over the creation and the chunks: the
  recording flag is cleared and the chunks are downloaded as one blob.
\<close>

definition recorderOnStop :: "creation \<Rightarrow> nat list list \<Rightarrow> preview_state \<Rightarrow> preview_state \<times> download" where
  "recorderOnStop cr chunks st =
     (st\<lparr>isRecording := False\<rparr>,
      \<lparr>blobParts = map DataPart chunks, blobType = ascii ''video/webm'',
       downloadName = toLowerCase (replaceNonAlnum (name cr)) @ ascii ''_demo.webm''\<rparr>)"

text \<open>
  The pattern of \<^verbatim>\<open>handleCopyPrompt\<close>,
  \<^verbatim>\<open>/<script id="design-prompt-data" type="text\/plain">([\s\S]*?)<\/script>/\<close>:
  a literal, a lazy group of any code units, a literal.
\<close>

definition openTag :: jsstring where
  "openTag = ascii ''<script id='' @ dquote @ ascii ''design-prompt-data'' @ dquote
     @ ascii '' type='' @ dquote @ ascii ''text/plain'' @ dquote @ ascii ''>''"

definition closeTag :: jsstring where
  "closeTag = ascii ''</script>''"

text \<open>
  \<^verbatim>\<open>([\s\S]*?)lit\<close> matched at the start of \<open>s\<close>: the lazy group takes as few code units
  as it can, so the group is what precedes the first place where the literal matches.
\<close>

fun lazyUntil :: "jsstring \<Rightarrow> jsstring \<Rightarrow> jsstring option" where
  "lazyUntil lit [] = (if startsWith [] lit then Some [] else None)"
| "lazyUntil lit (c # cs) =
     (if startsWith (c # cs) lit then Some []
      else map_option ((#) c) (lazyUntil lit cs))"

text \<open>The whole pattern matched at the start of \<open>s\<close>; the result is group 1.\<close>

definition matchHere :: "jsstring \<Rightarrow> jsstring option" where
  "matchHere s =
     (if startsWith s openTag then lazyUntil closeTag (drop (length openTag) s) else None)"

text \<open>\<^verbatim>\<open>html.match(pattern)\<close>: the first start position, from the left, with a match.\<close>

fun matchPrompt :: "jsstring \<Rightarrow> jsstring option" where
  "matchPrompt [] = matchHere []"
| "matchPrompt (c # cs) =
     (case matchHere (c # cs) of Some g \<Rightarrow> Some g | None \<Rightarrow> matchPrompt cs)"

definition fallbackPrompt :: "jsstring \<Rightarrow> jsstring" where
  "fallbackPrompt n =
     ascii ''Create a product demo video for '' @ n
     @ ascii ''. Include cursor animations and voiceover script.''"

text \<open>
  \<^verbatim>\<open>handleCopyPrompt\<close>: the text handed to \<^verbatim>\<open>navigator.clipboard.writeText\<close>, if the
  handler gets that far. The branch is \<^verbatim>\<open>match && match[1]\<close>: a match whose group is
  the empty string goes to the \<^verbatim>\<open>else\<close> branch.
\<close>

definition handleCopyPrompt :: "creation option \<Rightarrow> jsstring option" where
  "handleCopyPrompt c =
     (case c of
        None \<Rightarrow> None
      | Some cr \<Rightarrow>
          Some (case matchPrompt (html cr) of
                  None \<Rightarrow> fallbackPrompt (name cr)
                | Some g \<Rightarrow> if truthy g then trim g else fallbackPrompt (name cr)))"

text \<open>
  What the browser does with a click on the record button: whether
  \<^verbatim>\<open>navigator.mediaDevices?.getDisplayMedia\<close> exists, whether its promise resolves with a
  stream or rejects, whether \<^verbatim>\<open>new MediaRecorder\<close> and \<^verbatim>\<open>mediaRecorder.start()\<close> return
  or throw, and whether the iframe is mounted.
\<close>

record browser =
  hasGetDisplayMedia :: bool
  displayMediaGranted :: bool
  recorderConstructs :: bool
  recorderStarts :: bool
  iframeMounted :: bool

text \<open>What the \<^verbatim>\<open>try\<close> block can throw: the rejection of the capture request, and the
  exceptions of the recorder's constructor and of its \<^verbatim>\<open>start\<close>.\<close>

datatype record_error = CaptureRejected | ConstructorThrew | StartThrew

text \<open>
  The calls of \<^verbatim>\<open>handleRecordVideo\<close> that leave the component, in their order:
  \<open>Alert\<close>, \<open>GetDisplayMedia\<close> and \<open>ConsoleError\<close> when the call is made,
  \<open>NewMediaRecorder\<close> and \<open>RecorderStart\<close> when the call has returned.
  \<open>AssignSrcDoc\<close> is the statement
  \<^verbatim>\<open>iframeRef.current.srcDoc = iframeRef.current.srcDoc\<close>, which the source runs when the
  iframe is mounted; the effect is the assignment, and what the browser does with it is
  not modelled.
\<close>

datatype effect =
    Alert jsstring
  | GetDisplayMedia
  | NewMediaRecorder
  | RecorderStart
  | AssignSrcDoc
  | ConsoleError record_error

definition unsupportedMessage :: jsstring where
  "unsupportedMessage = ascii ''Your browser does not support screen recording.''"

definition shareHint :: jsstring where
  "shareHint = ascii ''Please select 'This Tab' (or the current window) and ensure 'Share Audio' is checked to capture the voiceover.''"

text \<open>
  The \<^verbatim>\<open>try\<close> block: the state and the effects at the point where the block returns
  or throws, whether a recorder is left recording (which alone can fire \<^verbatim>\<open>onstop\<close>
  later), and the error thrown, if one is.
\<close>

definition recordAttempt ::
  "browser \<Rightarrow> preview_state \<Rightarrow> (preview_state \<times> effect list \<times> bool) \<times> record_error option" where
  "recordAttempt b st =
     (if \<not> hasGetDisplayMedia b then ((st, [Alert unsupportedMessage], False), None)
      else if \<not> displayMediaGranted b then
        ((st, [Alert shareHint, GetDisplayMedia], False), Some CaptureRejected)
      else if \<not> recorderConstructs b then
        ((st\<lparr>isRecording := True\<rparr>, [Alert shareHint, GetDisplayMedia], False),
         Some ConstructorThrew)
      else if \<not> recorderStarts b then
        ((st\<lparr>isRecording := True\<rparr>, [Alert shareHint, GetDisplayMedia, NewMediaRecorder], False),
         Some StartThrew)
      else
        ((st\<lparr>isRecording := True\<rparr>,
          [Alert shareHint, GetDisplayMedia, NewMediaRecorder, RecorderStart]
          @ (if iframeMounted b then [AssignSrcDoc] else []),
          True),
         None))"

text \<open>
  \<^verbatim>\<open>handleRecordVideo\<close>: nothing without a creation; otherwise the \<^verbatim>\<open>try\<close> block, and
  on an error the \<^verbatim>\<open>catch\<close> block, which logs it and clears the recording flag.
\<close>

definition handleRecordVideo ::
  "browser \<Rightarrow> creation option \<Rightarrow> preview_state \<Rightarrow> preview_state \<times> effect list \<times> bool" where
  "handleRecordVideo b c st =
     (case c of
        None \<Rightarrow> (st, [], False)
      | Some cr \<Rightarrow>
          (case recordAttempt b st of
             (r, None) \<Rightarrow> r
           | ((st', effects, recording), Some err) \<Rightarrow>
               (st'\<lparr>isRecording := False\<rparr>, effects @ [ConsoleError err], recording)))"

text \<open>The \<^verbatim>\<open>disabled\<close> attribute of the record button.\<close>

definition recordDisabled :: "preview_state \<Rightarrow> bool" where
  "recordDisabled st = isRecording st"

text \<open>Two inputs with white space: one without an attachment, one with an image.\<close>

definition blankInput :: input_state where
  "blankInput = \<lparr>url = ascii ''  '', instructions = [9, 10, 160], attachedFiles = []\<rparr>"

definition paddedInput :: input_state where
  "paddedInput =
     \<lparr>url = ascii ''  '', instructions = ascii '' hi '',
      attachedFiles = [\<lparr>fileName = ascii ''a.png'', fileType = ascii ''image/png''\<rparr>]\<rparr>"

text \<open>An image and a document, as a drop or a file selection may carry them.\<close>

definition pngFile :: file_obj where
  "pngFile = \<lparr>fileName = ascii ''a.png'', fileType = ascii ''image/png''\<rparr>"

definition pdfFile :: file_obj where
  "pdfFile = \<lparr>fileName = ascii ''b.pdf'', fileType = ascii ''application/pdf''\<rparr>"

text \<open>
  Creations and a state for the examples: a reference image, no reference image; a state
  with the split view on.
\<close>

definition imageCreation :: creation where
  "imageCreation =
     \<lparr>name = ascii ''demo'', html = [], originalImage = Some (ascii ''data:image/png;base64,AA'')\<rparr>"

definition splitState :: preview_state where
  "splitState = \<lparr>loadingStep = 0, showSplitView = True, copiedPrompt = False, isRecording = False\<rparr>"

definition linearCreation :: creation where
  "linearCreation = \<lparr>name = ascii ''Linear.app Demo!'', html = [], originalImage = None\<rparr>"

text \<open>
  The recorder's \<^verbatim>\<open>stop\<close> event: the browser dispatches it to \<^verbatim>\<open>onstop\<close> for a recorder
  that is recording, and for no other. The video file comes from \<^verbatim>\<open>onstop\<close> alone.
\<close>

definition stopEvent ::
  "creation \<Rightarrow> nat list list \<Rightarrow> bool \<Rightarrow> preview_state \<Rightarrow> preview_state \<times> download option" where
  "stopEvent cr chunks recording st =
     (if recording
      then (case recorderOnStop cr chunks st of (st', file) \<Rightarrow> (st', Some file))
      else (st, None))"

text \<open>The state of the panel before a click, and three browsers in which recording fails.\<close>

definition idleState :: preview_state where
  "idleState = \<lparr>loadingStep = 0, showSplitView = False, copiedPrompt = False, isRecording = False\<rparr>"

definition oldBrowser :: browser where
  "oldBrowser =
     \<lparr>hasGetDisplayMedia = False, displayMediaGranted = False, recorderConstructs = False,
      recorderStarts = False, iframeMounted = True\<rparr>"

definition denyingBrowser :: browser where
  "denyingBrowser =
     \<lparr>hasGetDisplayMedia = True, displayMediaGranted = False, recorderConstructs = True,
      recorderStarts = True, iframeMounted = True\<rparr>"

definition failingStartBrowser :: browser where
  "failingStartBrowser =
     \<lparr>hasGetDisplayMedia = True, displayMediaGranted = True, recorderConstructs = True,
      recorderStarts = False, iframeMounted = True\<rparr>"

text \<open>A response with two fences in front, and a response in one fenced block.\<close>

definition doubleFenced :: jsstring where
  "doubleFenced = ascii ''``````x''"

definition fencedResponse :: jsstring where
  "fencedResponse = ascii ''```html'' @ newline @ ascii ''<p>x</p>'' @ newline @ ascii ''```''"

text \<open>Creations whose document carries the prompt tag, empty and with a text.\<close>

definition emptyTagCreation :: creation where
  "emptyTagCreation = \<lparr>name = ascii ''demo'', html = openTag @ closeTag, originalImage = None\<rparr>"

definition taggedCreation :: creation where
  "taggedCreation =
     \<lparr>name = ascii ''demo'', html = openTag @ ascii '' x'' @ closeTag, originalImage = None\<rparr>"

section \<open>Properties of InputArea\<close>

lemma trim_whitespace_only:
  "list_all isWhiteSpace s \<Longrightarrow> trim s = []"
proof -
  assume "list_all isWhiteSpace s"
  then have "dropWhile isWhiteSpace s = []"
    by (simp add: list_all_iff)
  then show "trim s = []"
    by (simp only: trim_def rev.simps dropWhile.simps)
qed

lemma trim_Nil: "trim [] = []"
  unfolding trim_def by simp

lemma submitDisabled_iff:
  "submitDisabled st g \<longleftrightarrow> nothingToSubmit st \<or> g"
  unfolding submitDisabled_def nothingToSubmit_def by (rule refl)

lemma handleSubmit_no_call_iff:
  "snd (handleSubmit st) = None \<longleftrightarrow> nothingToSubmit st"
  unfolding handleSubmit_def by (cases "nothingToSubmit st") simp_all

lemma trim_empty_iff:
  "trim s = [] \<longleftrightarrow> list_all isWhiteSpace s"
proof
  assume "trim s = []"
  then have "dropWhile isWhiteSpace (rev (dropWhile isWhiteSpace s)) = []"
    by (simp add: trim_def)
  then have "\<forall>c \<in> set (dropWhile isWhiteSpace s). isWhiteSpace c"
    by simp
  then have "dropWhile isWhiteSpace s = []"
    by (metis hd_dropWhile hd_in_set)
  then show "list_all isWhiteSpace s"
    by (simp add: list_all_iff)
next
  assume "list_all isWhiteSpace s"
  then show "trim s = []" by (rule trim_whitespace_only)
qed

lemma nothingToSubmit_iff:
  "nothingToSubmit st \<longleftrightarrow>
     list_all isWhiteSpace (url st) \<and> list_all isWhiteSpace (instructions st)
     \<and> attachedFiles st = []"
  unfolding nothingToSubmit_def truthy_def
  by (simp only: trim_empty_iff length_0_conv not_not)

text \<open>
  C5 as stated fails in its part on the button: the button is disabled also when the
  three are not all empty, for a filled form while a generation is running, and for a
  URL and instructions of white space.
\<close>

theorem submit_disabled_counterexample:
  "submitDisabled exampleInput True
   \<and> url exampleInput \<noteq> []
   \<and> submitDisabled blankInput False
   \<and> url blankInput \<noteq> []"
proof -
  have 1: "submitDisabled exampleInput True"
    by (simp only: submitDisabled_iff simp_thms)
  have 2: "url exampleInput \<noteq> []"
    by (simp add: exampleInput_def ascii_def)
  have "list_all isWhiteSpace (url blankInput)
      \<and> list_all isWhiteSpace (instructions blankInput) \<and> attachedFiles blankInput = []"
    by (simp add: blankInput_def ascii_def isWhiteSpace_def)
  then have 3: "submitDisabled blankInput False"
    by (simp only: submitDisabled_iff nothingToSubmit_iff simp_thms)
  have 4: "url blankInput \<noteq> []"
    by (simp add: blankInput_def ascii_def)
  from 1 2 3 4 show ?thesis by (simp only: simp_thms)
qed

text \<open>
  C5, amended. With the URL, the instructions and the attachment list all empty,
  \<open>handleSubmit\<close> returns without a call of \<open>onGenerate\<close> and leaves the state as it
  was, and the submit button is disabled. The button is disabled exactly when the URL
  and the instructions hold nothing but white space and there is no attachment, or a
  generation is running; the first of the two is exactly the condition on which the
  handler returns without the call. The handler has no error result.
\<close>

theorem submit_rejected_and_disabled_condition:
  "(url st = [] \<and> instructions st = [] \<and> attachedFiles st = []
      \<longrightarrow> handleSubmit st = (st, None) \<and> submitDisabled st isGenerating)
   \<and> (submitDisabled st isGenerating \<longleftrightarrow>
        (list_all isWhiteSpace (url st) \<and> list_all isWhiteSpace (instructions st)
         \<and> attachedFiles st = [])
        \<or> isGenerating)
   \<and> (snd (handleSubmit st) = None \<longleftrightarrow>
        list_all isWhiteSpace (url st) \<and> list_all isWhiteSpace (instructions st)
        \<and> attachedFiles st = [])
   \<and> (submitDisabled st isGenerating \<longleftrightarrow> snd (handleSubmit st) = None \<or> isGenerating)"
proof (intro conjI impI)
  assume e: "url st = [] \<and> instructions st = [] \<and> attachedFiles st = []"
  then have n: "nothingToSubmit st"
    unfolding nothingToSubmit_def truthy_def by (simp add: trim_Nil)
  then show "handleSubmit st = (st, None)"
    unfolding handleSubmit_def by simp
  from n show "submitDisabled st isGenerating"
    by (simp add: submitDisabled_iff)
next
  show "submitDisabled st isGenerating \<longleftrightarrow>
        (list_all isWhiteSpace (url st) \<and> list_all isWhiteSpace (instructions st)
         \<and> attachedFiles st = [])
        \<or> isGenerating"
    by (simp only: submitDisabled_iff nothingToSubmit_iff)
next
  show "snd (handleSubmit st) = None \<longleftrightarrow>
        list_all isWhiteSpace (url st) \<and> list_all isWhiteSpace (instructions st)
        \<and> attachedFiles st = []"
    by (simp only: handleSubmit_no_call_iff nothingToSubmit_iff)
next
  show "submitDisabled st isGenerating \<longleftrightarrow> snd (handleSubmit st) = None \<or> isGenerating"
    by (simp only: submitDisabled_iff handleSubmit_no_call_iff)
qed

theorem submit_rejected_and_disabled_condition_witness:
  "handleSubmit initialInput = (initialInput, None)
   \<and> submitDisabled initialInput False
   \<and> snd (handleSubmit exampleInput) \<noteq> None
   \<and> \<not> submitDisabled exampleInput False"
proof -
  have e: "url initialInput = [] \<and> instructions initialInput = []
      \<and> attachedFiles initialInput = []"
    by (simp add: initialInput_def)
  from submit_rejected_and_disabled_condition [of initialInput False] e
  have 1: "handleSubmit initialInput = (initialInput, None) \<and> submitDisabled initialInput False"
    by blast
  have w: "\<not> list_all isWhiteSpace (url exampleInput)"
    by (simp add: exampleInput_def ascii_def isWhiteSpace_def)
  from submit_rejected_and_disabled_condition [of exampleInput False] w
  have 2: "snd (handleSubmit exampleInput) \<noteq> None \<and> \<not> submitDisabled exampleInput False"
    by blast
  from 1 2 show ?thesis by blast
qed

text \<open>
  C9. A submit that passes the guard calls \<open>onGenerate\<close>, and afterwards the attachment
  list and the instructions are empty and the URL is the one before.
\<close>

theorem submit_clears_all_but_url:
  "\<not> nothingToSubmit st \<Longrightarrow>
     snd (handleSubmit st) \<noteq> None
     \<and> attachedFiles (fst (handleSubmit st)) = []
     \<and> instructions (fst (handleSubmit st)) = []
     \<and> url (fst (handleSubmit st)) = url st"
  by (simp add: handleSubmit_def)

theorem submit_clears_all_but_url_witness:
  "\<not> nothingToSubmit exampleInput
   \<and> snd (handleSubmit exampleInput) \<noteq> None
   \<and> attachedFiles (fst (handleSubmit exampleInput)) = []
   \<and> instructions (fst (handleSubmit exampleInput)) = []
   \<and> url (fst (handleSubmit exampleInput)) = ascii ''https://linear.app''"
proof -
  have g: "\<not> nothingToSubmit exampleInput"
    by (simp add: exampleInput_def nothingToSubmit_def truthy_def trim_def ascii_def
        isWhiteSpace_def)
  have u: "url exampleInput = ascii ''https://linear.app''"
    by (simp add: exampleInput_def)
  from submit_clears_all_but_url [OF g] g u show ?thesis
    by (simp only: simp_thms)
qed

lemma handleSubmit_call:
  "snd (handleSubmit st) = Some args \<Longrightarrow> args = (url st, instructions st, attachedFiles st)"
  unfolding handleSubmit_def by (cases "nothingToSubmit st") simp_all

text \<open>
  C10. The guard judges the trimmed strings: with a URL and instructions of white space
  only and no attachment, \<open>handleSubmit\<close> returns without the call and the button is
  disabled. A call of \<open>onGenerate\<close>, whenever one is made, carries the URL and the
  instructions as they are in the state, untrimmed; with an attachment the call is made.
\<close>

theorem submit_guard_trims_call_does_not:
  "(list_all isWhiteSpace (url st) \<and> list_all isWhiteSpace (instructions st)
      \<and> attachedFiles st = []
      \<longrightarrow> handleSubmit st = (st, None) \<and> submitDisabled st isGenerating)
   \<and> (\<forall>args. snd (handleSubmit st) = Some args
         \<longrightarrow> args = (url st, instructions st, attachedFiles st))
   \<and> (attachedFiles st \<noteq> []
         \<longrightarrow> snd (handleSubmit st) = Some (url st, instructions st, attachedFiles st))"
proof (intro conjI impI allI)
  assume w: "list_all isWhiteSpace (url st) \<and> list_all isWhiteSpace (instructions st)
      \<and> attachedFiles st = []"
  then have n: "nothingToSubmit st"
    unfolding nothingToSubmit_def truthy_def by (simp add: trim_whitespace_only)
  then show "handleSubmit st = (st, None)"
    unfolding handleSubmit_def by simp
  from n show "submitDisabled st isGenerating"
    by (simp add: submitDisabled_iff)
next
  fix args
  assume "snd (handleSubmit st) = Some args"
  then show "args = (url st, instructions st, attachedFiles st)"
    by (rule handleSubmit_call)
next
  assume "attachedFiles st \<noteq> []"
  then have "\<not> nothingToSubmit st"
    unfolding nothingToSubmit_def by simp
  then show "snd (handleSubmit st) = Some (url st, instructions st, attachedFiles st)"
    unfolding handleSubmit_def by simp
qed

theorem submit_guard_trims_call_does_not_witness:
  "handleSubmit blankInput = (blankInput, None)
   \<and> submitDisabled blankInput False
   \<and> snd (handleSubmit paddedInput)
       = Some (ascii ''  '', ascii '' hi '',
               [\<lparr>fileName = ascii ''a.png'', fileType = ascii ''image/png''\<rparr>])"
proof -
  have w: "list_all isWhiteSpace (url blankInput)
      \<and> list_all isWhiteSpace (instructions blankInput) \<and> attachedFiles blankInput = []"
    by (simp add: blankInput_def ascii_def isWhiteSpace_def)
  have a: "attachedFiles paddedInput \<noteq> []"
    by (simp add: paddedInput_def)
  have p: "(url paddedInput, instructions paddedInput, attachedFiles paddedInput)
      = (ascii ''  '', ascii '' hi '',
         [\<lparr>fileName = ascii ''a.png'', fileType = ascii ''image/png''\<rparr>])"
    by (simp add: paddedInput_def)
  from submit_guard_trims_call_does_not [of blankInput False] w
  have 1: "handleSubmit blankInput = (blankInput, None) \<and> submitDisabled blankInput False"
    by blast
  from submit_guard_trims_call_does_not [of paddedInput False] a
  have 2: "snd (handleSubmit paddedInput)
      = Some (url paddedInput, instructions paddedInput, attachedFiles paddedInput)"
    by blast
  from 1 2 p show ?thesis by (simp only: simp_thms)
qed

text \<open>
  C7. A paste and a drop append the files whose MIME type starts with \<open>image/\<close>, and
  nothing while the component is disabled or generating; a file selection appends every
  file it carries, with no test of the type. What is accepted goes to the end of the
  list, in its order, and the list before stays as the front.
\<close>

theorem attachments_filtered_by_source:
  "handlePaste disabled isGenerating files st
     = st\<lparr>attachedFiles := attachedFiles st
            @ (if disabled \<or> isGenerating then [] else filter isImage files)\<rparr>
   \<and> handleDrop disabled isGenerating files st
     = st\<lparr>attachedFiles := attachedFiles st
            @ (if disabled \<or> isGenerating then [] else filter isImage files)\<rparr>
   \<and> handleFileChange files st = st\<lparr>attachedFiles := attachedFiles st @ files\<rparr>
   \<and> (isImage f \<longleftrightarrow> (\<exists>rest. fileType f = ascii ''image/'' @ rest))"
proof (intro conjI)
  show "handlePaste disabled isGenerating files st
     = st\<lparr>attachedFiles := attachedFiles st
            @ (if disabled \<or> isGenerating then [] else filter isImage files)\<rparr>"
    unfolding handlePaste_def Let_def
    by (cases "filter isImage files") auto
  show "handleDrop disabled isGenerating files st
     = st\<lparr>attachedFiles := attachedFiles st
            @ (if disabled \<or> isGenerating then [] else filter isImage files)\<rparr>"
    unfolding handleDrop_def Let_def
    by (cases files) auto
  show "handleFileChange files st = st\<lparr>attachedFiles := attachedFiles st @ files\<rparr>"
    unfolding handleFileChange_def Let_def
    by (cases files) auto
  show "isImage f \<longleftrightarrow> (\<exists>rest. fileType f = ascii ''image/'' @ rest)"
    unfolding isImage_def startsWith_def
    by (metis append_eq_conv_conj append_take_drop_id)
qed

theorem attachments_filtered_by_source_witness:
  "attachedFiles (handleDrop False False [pngFile, pdfFile] initialInput) = [pngFile]
   \<and> attachedFiles (handlePaste False False [pdfFile, pngFile] initialInput) = [pngFile]
   \<and> attachedFiles (handleFileChange [pngFile, pdfFile] initialInput) = [pngFile, pdfFile]"
proof -
  have i: "filter isImage [pngFile, pdfFile] = [pngFile]"
    "filter isImage [pdfFile, pngFile] = [pngFile]"
    by (simp_all add: isImage_def startsWith_def pngFile_def pdfFile_def ascii_def)
  from attachments_filtered_by_source [of False False "[pngFile, pdfFile]" initialInput]
    attachments_filtered_by_source [of False False "[pdfFile, pngFile]" initialInput] i
  show ?thesis
    by (simp add: initialInput_def)
qed

section \<open>Properties of the request\<close>

lemma foldl_push:
  "foldl (\<lambda>parts img. push parts (f img)) acc xs = acc @ map f xs"
  by (induction xs arbitrary: acc) (simp_all add: push_def)

text \<open>
  C1. The parts of the request are one text part, the prompt, followed by one inline part
  for each attachment, with its base64 payload and its MIME type, in the order of the
  attachments. The prompt is fixed text around three substitutions, in this order: the
  URL, the instructions, the decimal number of attachments. With two attachments there
  are two inline parts, and the number in the prompt is 2. These parts are what
  \<open>bringToLife\<close> hands to the remote call.
\<close>

theorem request_parts_shape:
  "requestParts u i images
     = TextPart (finalPrompt u i images)
       # map (\<lambda>img. InlineData (base64 img) (mimeType img)) images
   \<and> (\<exists>a b c d. \<forall>u' i' images'.
          finalPrompt u' i' images'
            = a @ u' @ b @ i' @ c @ numberToString (length images') @ d)
   \<and> requestParts u i [x, y]
       = [TextPart (finalPrompt u i [x, y]),
          InlineData (base64 x) (mimeType x), InlineData (base64 y) (mimeType y)]
   \<and> numberToString (length [x, y]) = ascii ''2''
   \<and> bringToLife generateContent u i images
       = (case generateContent
                (TextPart (finalPrompt u i images)
                 # map (\<lambda>img. InlineData (base64 img) (mimeType img)) images) of
            Inl err \<Rightarrow> Inl err
          | Inr t \<Rightarrow> Inr (stripFences (responseText t)))"
proof -
  have shape: "\<And>imgs. requestParts u i imgs
     = TextPart (finalPrompt u i imgs)
       # map (\<lambda>img. InlineData (base64 img) (mimeType img)) imgs"
    unfolding requestParts_def foldl_push by (simp add: push_def)
  have holes: "\<exists>a b c d. \<forall>u' i' images'.
          finalPrompt u' i' images'
            = a @ u' @ b @ i' @ c @ numberToString (length images') @ d"
    unfolding finalPrompt_def
    by (intro exI allI) (rule refl)
  have two: "numberToString (length [x, y]) = ascii ''2''"
    by (simp add: ascii_def)
  have call: "bringToLife generateContent u i images
       = (case generateContent
                (TextPart (finalPrompt u i images)
                 # map (\<lambda>img. InlineData (base64 img) (mimeType img)) images) of
            Inl err \<Rightarrow> Inl err
          | Inr t \<Rightarrow> Inr (stripFences (responseText t)))"
    unfolding bringToLife_def shape by (rule refl)
  from shape [of images] shape [of "[x, y]"] holes two call show ?thesis
    by (simp only: list.map simp_thms)
qed

section \<open>Properties of LivePreview: split view and file names\<close>

lemma dataUrl_not_Nil: "isDataUrl img \<Longrightarrow> img \<noteq> []"
  by (auto simp add: isDataUrl_def startsWith_def ascii_def)

text \<open>
  C3. When the creation changes, the split view is recomputed from the new creation
  alone. For a creation that carries a reference image, a data URL, it becomes true; for
  a creation without one it becomes false, and so it does when the creation is cleared.
  The value held for the creation before has no influence.
\<close>

theorem split_view_recomputed:
  assumes "creationWellFormed cr"
  shows "(showSplitView (creationEffect (Some cr) st) \<longleftrightarrow> originalImage cr \<noteq> None)
         \<and> \<not> showSplitView (creationEffect None st)
         \<and> creationEffect (Some cr) (st\<lparr>showSplitView := v\<rparr>) = creationEffect (Some cr) st
         \<and> creationEffect None (st\<lparr>showSplitView := v\<rparr>) = creationEffect None st"
proof (cases "originalImage cr")
  case None
  then show ?thesis
    by (simp add: creationEffect_def originalImageTruthy_def)
next
  case (Some img)
  with assms have "isDataUrl img"
    by (simp add: creationWellFormed_def)
  then have "img \<noteq> []"
    by (rule dataUrl_not_Nil)
  with Some show ?thesis
    by (simp add: creationEffect_def originalImageTruthy_def truthy_def)
qed

theorem split_view_recomputed_witness:
  "creationWellFormed imageCreation
   \<and> originalImage imageCreation \<noteq> None
   \<and> showSplitView (creationEffect (Some imageCreation) (splitState\<lparr>showSplitView := False\<rparr>))
   \<and> creationWellFormed linearCreation
   \<and> originalImage linearCreation = None
   \<and> \<not> showSplitView (creationEffect (Some linearCreation) splitState)"
proof -
  have i: "creationWellFormed imageCreation"
    by (simp add: creationWellFormed_def isDataUrl_def startsWith_def imageCreation_def
        ascii_def)
  have l: "creationWellFormed linearCreation"
    by (simp add: creationWellFormed_def linearCreation_def)
  have o: "originalImage imageCreation \<noteq> None" "originalImage linearCreation = None"
    by (simp_all add: imageCreation_def linearCreation_def)
  from split_view_recomputed [OF i, of "splitState\<lparr>showSplitView := False\<rparr>"]
    split_view_recomputed [OF l, of splitState] i l o
  show ?thesis by blast
qed

text \<open>
  C4 as stated fails: the characters outside letters and digits are not removed, each
  becomes an underscore, so that \<open>Linear.app Demo!\<close> gives \<open>linear_app_demo_.html\<close>.
\<close>

theorem download_name_counterexample:
  "map_option downloadName (handleDownloadHtml (Some linearCreation))
     = Some (ascii ''linear_app_demo_.html'')
   \<and> map_option downloadName (handleDownloadHtml (Some linearCreation))
     \<noteq> Some (ascii ''linearapp_demo.html'')"
  by (simp add: handleDownloadHtml_def linearCreation_def toLowerCase_def replaceNonAlnum_def
      isAlnum_def ascii_def)

text \<open>
  C4, amended. In the file name of a download every code unit of the creation's name
  that is not an ASCII letter or digit is replaced by one underscore, and the letters are
  lower-cased; the HTML download appends \<open>.html\<close> and the video download
  \<open>_demo.webm\<close>, to the same sanitized name. \<open>Linear.app Demo!\<close> gives
  \<open>linear_app_demo_.html\<close> and \<open>linear_app_demo__demo.webm\<close>.
\<close>

theorem download_name_sanitized:
  "map_option downloadName (handleDownloadHtml (Some cr))
     = Some (map (\<lambda>c. if isAlnum c then (if 65 \<le> c \<and> c \<le> 90 then c + 32 else c) else 95)
               (name cr) @ ascii ''.html'')
   \<and> downloadName (snd (recorderOnStop cr chunks st))
     = map (\<lambda>c. if isAlnum c then (if 65 \<le> c \<and> c \<le> 90 then c + 32 else c) else 95)
         (name cr) @ ascii ''_demo.webm''
   \<and> map_option downloadName (handleDownloadHtml (Some linearCreation))
     = Some (ascii ''linear_app_demo_.html'')
   \<and> downloadName (snd (recorderOnStop linearCreation chunks st))
     = ascii ''linear_app_demo__demo.webm''"
proof -
  have s: "\<And>n. toLowerCase (replaceNonAlnum n)
      = map (\<lambda>c. if isAlnum c then (if 65 \<le> c \<and> c \<le> 90 then c + 32 else c) else 95) n"
    unfolding toLowerCase_def replaceNonAlnum_def by simp
  have e: "toLowerCase (replaceNonAlnum (name linearCreation)) = ascii ''linear_app_demo_''"
    by (simp add: linearCreation_def toLowerCase_def replaceNonAlnum_def isAlnum_def ascii_def)
  have a: "ascii ''linear_app_demo_'' @ ascii ''.html'' = ascii ''linear_app_demo_.html''"
    "ascii ''linear_app_demo_'' @ ascii ''_demo.webm'' = ascii ''linear_app_demo__demo.webm''"
    by (simp_all add: ascii_def)
  show ?thesis
    by (simp add: handleDownloadHtml_def recorderOnStop_def s [symmetric] e a)
qed

section \<open>Properties of the clean-up of the response\<close>

lemma fenceHtml_fence: "fenceHtml = fence @ ascii ''html''"
  by (simp add: fenceHtml_def fence_def ascii_def)

lemma startsWith_iff: "startsWith s p \<longleftrightarrow> (\<exists>r. s = p @ r)"
  unfolding startsWith_def
  by (metis append_eq_conv_conj append_take_drop_id)

lemma endsWith_iff: "endsWith s p \<longleftrightarrow> (\<exists>r. s = r @ p)"
proof
  assume "endsWith s p"
  then have "drop (length s - length p) s = p"
    by (simp add: endsWith_def)
  then have "s = take (length s - length p) s @ p"
    by (metis append_take_drop_id)
  then show "\<exists>r. s = r @ p" ..
next
  assume "\<exists>r. s = r @ p"
  then obtain r where "s = r @ p" ..
  then show "endsWith s p"
    by (simp add: endsWith_def)
qed

lemma startsWith_fenceHtml: "startsWith s fenceHtml \<Longrightarrow> startsWith s fence"
  by (auto simp add: startsWith_iff fenceHtml_fence)

lemma replaceLeading_length: "length (replaceLeading lit s) \<le> length s"
proof (cases "startsWith s lit")
  case True
  have "length (dropWhile isWhiteSpace (drop (length lit) s)) \<le> length (drop (length lit) s)"
    by (rule length_dropWhile_le)
  with True show ?thesis
    by (simp add: replaceLeading_def)
next
  case False
  then show ?thesis by (simp add: replaceLeading_def)
qed

lemma replaceLeading_shorter:
  assumes "startsWith s lit" and "lit \<noteq> []"
  shows "length (replaceLeading lit s) < length s"
proof -
  from assms obtain r where s: "s = lit @ r"
    by (auto simp add: startsWith_iff)
  have "length (dropWhile isWhiteSpace r) \<le> length r"
    by (rule length_dropWhile_le)
  moreover from assms have "0 < length lit"
    by simp
  moreover from assms s have "replaceLeading lit s = dropWhile isWhiteSpace r"
    by (simp add: replaceLeading_def)
  ultimately show ?thesis
    using s by (cases lit) simp_all
qed

lemma replaceTrailing_length: "length (replaceTrailing lit s) \<le> length s"
  by (simp add: replaceTrailing_def)

lemma replaceTrailing_shorter:
  assumes "endsWith s lit" and "lit \<noteq> []"
  shows "length (replaceTrailing lit s) < length s"
proof -
  from assms obtain r where s: "s = r @ lit"
    by (auto simp add: endsWith_iff)
  with assms show ?thesis
    by (simp add: replaceTrailing_def)
qed

lemma fence_not_Nil: "fence \<noteq> []" "fenceHtml \<noteq> []"
  by (simp_all add: fence_def fenceHtml_def ascii_def)

lemma stripFences_fixed:
  assumes "\<not> startsWith s fence" and "\<not> endsWith s fence"
  shows "stripFences s = s"
proof -
  from assms(1) have "\<not> startsWith s fenceHtml"
    using startsWith_fenceHtml by blast
  with assms show ?thesis
    by (simp add: stripFences_def replaceLeading_def replaceTrailing_def)
qed

lemma stripFences_shorter:
  assumes "startsWith s fence \<or> endsWith s fence"
  shows "length (stripFences s) < length s"
proof (cases "startsWith s fenceHtml")
  case True
  then have "length (replaceLeading fenceHtml s) < length s"
    by (rule replaceLeading_shorter) (rule fence_not_Nil)
  moreover have "length (replaceLeading fence (replaceLeading fenceHtml s))
      \<le> length (replaceLeading fenceHtml s)"
    by (rule replaceLeading_length)
  moreover have "length (stripFences s)
      \<le> length (replaceLeading fence (replaceLeading fenceHtml s))"
    unfolding stripFences_def by (rule replaceTrailing_length)
  ultimately show ?thesis by linarith
next
  case False
  then have h: "replaceLeading fenceHtml s = s"
    by (simp add: replaceLeading_def)
  show ?thesis
  proof (cases "startsWith s fence")
    case True
    then have "length (replaceLeading fence s) < length s"
      by (rule replaceLeading_shorter) (rule fence_not_Nil)
    moreover have "length (stripFences s) \<le> length (replaceLeading fence s)"
      unfolding stripFences_def h by (rule replaceTrailing_length)
    ultimately show ?thesis by linarith
  next
    case nf: False
    with assms have e: "endsWith s fence" by blast
    from nf have "replaceLeading fence s = s"
      by (simp add: replaceLeading_def)
    with h have "stripFences s = replaceTrailing fence s"
      by (simp add: stripFences_def)
    moreover from e have "length (replaceTrailing fence s) < length s"
      by (rule replaceTrailing_shorter) (rule fence_not_Nil)
    ultimately show ?thesis by simp
  qed
qed

lemma stripFences_fixed_iff:
  "stripFences s = s \<longleftrightarrow> \<not> startsWith s fence \<and> \<not> endsWith s fence"
proof
  assume f: "stripFences s = s"
  show "\<not> startsWith s fence \<and> \<not> endsWith s fence"
  proof (rule ccontr)
    assume "\<not> (\<not> startsWith s fence \<and> \<not> endsWith s fence)"
    then have "startsWith s fence \<or> endsWith s fence" by blast
    then have "length (stripFences s) < length s" by (rule stripFences_shorter)
    with f show False by simp
  qed
next
  assume "\<not> startsWith s fence \<and> \<not> endsWith s fence"
  then show "stripFences s = s"
    using stripFences_fixed by blast
qed

text \<open>
  C2 as stated fails: with two fences in front the first strip removes one of them and
  the second strip the other.
\<close>

theorem strip_idempotent_counterexample:
  "stripFences doubleFenced = ascii ''```x''
   \<and> stripFences (stripFences doubleFenced) = ascii ''x''
   \<and> stripFences (stripFences doubleFenced) \<noteq> stripFences doubleFenced"
proof -
  have 1: "stripFences doubleFenced = ascii ''```x''"
    by (simp add: doubleFenced_def stripFences_def replaceLeading_def replaceTrailing_def
        startsWith_def endsWith_def fence_def fenceHtml_def ascii_def isWhiteSpace_def)
  have 2: "stripFences (ascii ''```x'') = ascii ''x''"
    by (simp add: stripFences_def replaceLeading_def replaceTrailing_def
        startsWith_def endsWith_def fence_def fenceHtml_def ascii_def isWhiteSpace_def)
  have 3: "ascii ''x'' \<noteq> ascii ''```x''"
    by (simp add: ascii_def)
  from 1 2 3 show ?thesis by simp
qed

text \<open>
  C2, amended. A string that neither starts nor ends with a fence is returned unchanged,
  so is every string that contains no fence, and these are the only strings that the
  strip returns unchanged. Stripping twice equals stripping once exactly when the result
  of the first strip neither starts nor ends with a fence.
\<close>

theorem strip_idempotent_where_unfenced:
  "(stripFences (stripFences s) = stripFences s
      \<longleftrightarrow> \<not> startsWith (stripFences s) fence \<and> \<not> endsWith (stripFences s) fence)
   \<and> (\<not> startsWith s fence \<and> \<not> endsWith s fence \<longrightarrow> stripFences s = s)
   \<and> ((\<nexists>a b. s = a @ fence @ b) \<longrightarrow> stripFences s = s)"
proof (intro conjI impI)
  show "stripFences (stripFences s) = stripFences s
      \<longleftrightarrow> \<not> startsWith (stripFences s) fence \<and> \<not> endsWith (stripFences s) fence"
    by (rule stripFences_fixed_iff)
next
  assume "\<not> startsWith s fence \<and> \<not> endsWith s fence"
  then show "stripFences s = s"
    using stripFences_fixed by blast
next
  assume n: "\<nexists>a b. s = a @ fence @ b"
  have "\<not> startsWith s fence"
  proof
    assume "startsWith s fence"
    then obtain r where "s = [] @ fence @ r"
      by (auto simp add: startsWith_iff)
    with n show False by blast
  qed
  moreover have "\<not> endsWith s fence"
  proof
    assume "endsWith s fence"
    then obtain r where "s = r @ fence @ []"
      by (auto simp add: endsWith_iff)
    with n show False by blast
  qed
  ultimately show "stripFences s = s"
    by (rule stripFences_fixed)
qed

theorem strip_idempotent_where_unfenced_witness:
  "stripFences fencedResponse = ascii ''<p>x</p>'' @ newline
   \<and> stripFences (stripFences fencedResponse) = stripFences fencedResponse
   \<and> stripFences (ascii ''<p>x</p>'') = ascii ''<p>x</p>''"
proof -
  have 1: "stripFences fencedResponse = ascii ''<p>x</p>'' @ newline"
    by (simp add: fencedResponse_def newline_def stripFences_def replaceLeading_def
        replaceTrailing_def startsWith_def endsWith_def fence_def fenceHtml_def ascii_def
        isWhiteSpace_def)
  have 2: "\<not> startsWith (ascii ''<p>x</p>'' @ newline) fence
      \<and> \<not> endsWith (ascii ''<p>x</p>'' @ newline) fence"
    by (simp add: newline_def startsWith_def endsWith_def fence_def ascii_def)
  have 3: "\<not> startsWith (ascii ''<p>x</p>'') fence \<and> \<not> endsWith (ascii ''<p>x</p>'') fence"
    by (simp add: startsWith_def endsWith_def fence_def ascii_def)
  from strip_idempotent_where_unfenced [of fencedResponse]
    strip_idempotent_where_unfenced [of "ascii ''<p>x</p>''"] 1 2 3
  show ?thesis by simp
qed


section \<open>Properties of the record action\<close>

text \<open>
  C8. When the browser has no screen capture, or the capture request is rejected, or the
  recorder's constructor or its start throws, \<open>handleRecordVideo\<close> ends with no recorder
  started and none left recording, so that no stop event reaches \<open>onstop\<close> and no video
  file is downloaded. With screen capture present the error is caught and logged, as the
  last effect, and the recording flag is false. Without it nothing is raised: the user
  is alerted, and the state, hence the flag, is as before, which is false whenever the
  record button could be clicked. The capture is requested once at most.
\<close>

theorem record_failure_aborts:
  assumes "\<not> hasGetDisplayMedia b \<or> \<not> displayMediaGranted b
           \<or> \<not> recorderConstructs b \<or> \<not> recorderStarts b"
    and "handleRecordVideo b (Some cr) st = (st', effects, recording)"
  shows "RecorderStart \<notin> set effects \<and> \<not> recording
         \<and> snd (stopEvent cr chunks recording st') = None
         \<and> (hasGetDisplayMedia b
              \<longrightarrow> (\<exists>err. last effects = ConsoleError err) \<and> \<not> isRecording st')
         \<and> (\<not> hasGetDisplayMedia b \<longrightarrow> st' = st \<and> effects = [Alert unsupportedMessage])
         \<and> (\<not> recordDisabled st \<longrightarrow> \<not> isRecording st')
         \<and> count_list effects GetDisplayMedia \<le> 1"
  using assms
  unfolding handleRecordVideo_def recordAttempt_def recordDisabled_def stopEvent_def
  by (auto split: if_splits)

theorem record_failure_aborts_witness:
  "handleRecordVideo denyingBrowser (Some linearCreation) idleState
     = (idleState, [Alert shareHint, GetDisplayMedia, ConsoleError CaptureRejected], False)
   \<and> handleRecordVideo failingStartBrowser (Some linearCreation) idleState
     = (idleState, [Alert shareHint, GetDisplayMedia, NewMediaRecorder, ConsoleError StartThrew],
        False)
   \<and> handleRecordVideo oldBrowser (Some linearCreation) idleState
     = (idleState, [Alert unsupportedMessage], False)
   \<and> snd (stopEvent linearCreation [] False idleState) = None
   \<and> \<not> isRecording idleState"
proof -
  have d: "\<not> hasGetDisplayMedia denyingBrowser \<or> \<not> displayMediaGranted denyingBrowser
           \<or> \<not> recorderConstructs denyingBrowser \<or> \<not> recorderStarts denyingBrowser"
    by (simp add: denyingBrowser_def)
  have r: "handleRecordVideo denyingBrowser (Some linearCreation) idleState
     = (idleState, [Alert shareHint, GetDisplayMedia, ConsoleError CaptureRejected], False)"
    by (simp add: handleRecordVideo_def recordAttempt_def denyingBrowser_def idleState_def)
  have f: "handleRecordVideo failingStartBrowser (Some linearCreation) idleState
     = (idleState, [Alert shareHint, GetDisplayMedia, NewMediaRecorder, ConsoleError StartThrew],
        False)"
    by (simp add: handleRecordVideo_def recordAttempt_def failingStartBrowser_def idleState_def)
  have u: "handleRecordVideo oldBrowser (Some linearCreation) idleState
     = (idleState, [Alert unsupportedMessage], False)"
    by (simp add: handleRecordVideo_def recordAttempt_def oldBrowser_def)
  from record_failure_aborts [OF d r, of "[]"] r f u show ?thesis
    by (simp add: denyingBrowser_def recordDisabled_def idleState_def)
qed

section \<open>Properties of the copied prompt\<close>

lemma lazyUntil_start: "startsWith s lit \<Longrightarrow> lazyUntil lit s = Some []"
  by (cases s) simp_all

lemma lazyUntil_sound:
  "lazyUntil lit s = Some g \<Longrightarrow> \<exists>post. s = g @ lit @ post"
proof (induction s arbitrary: g)
  case Nil
  then show ?case
    by (auto simp add: startsWith_iff split: if_splits)
next
  case (Cons c cs)
  show ?case
  proof (cases "startsWith (c # cs) lit")
    case True
    with Cons.prems have "g = []" by simp
    with True show ?thesis
      by (auto simp add: startsWith_iff)
  next
    case False
    with Cons.prems obtain g' where g': "lazyUntil lit cs = Some g'" and g: "g = c # g'"
      by auto
    from Cons.IH [OF g'] obtain post where "cs = g' @ lit @ post" ..
    with g show ?thesis by simp
  qed
qed

lemma lazyUntil_shortest:
  assumes "\<forall>g' r. g @ lit @ post = g' @ lit @ r \<longrightarrow> length g \<le> length g'"
  shows "lazyUntil lit (g @ lit @ post) = Some g"
  using assms
proof (induction g)
  case Nil
  have "startsWith (lit @ post) lit"
    by (auto simp add: startsWith_iff)
  then show ?case
    by (simp add: lazyUntil_start)
next
  case (Cons c g)
  have ns: "\<not> startsWith (c # g @ lit @ post) lit"
  proof
    assume "startsWith (c # g @ lit @ post) lit"
    then obtain r where "(c # g) @ lit @ post = [] @ lit @ r"
      by (auto simp add: startsWith_iff)
    with Cons.prems have "length (c # g) \<le> length ([]::nat list)" by blast
    then show False by simp
  qed
  have "\<forall>g' r. g @ lit @ post = g' @ lit @ r \<longrightarrow> length g \<le> length g'"
  proof (intro allI impI)
    fix g' r
    assume "g @ lit @ post = g' @ lit @ r"
    then have "(c # g) @ lit @ post = (c # g') @ lit @ r" by simp
    with Cons.prems have "length (c # g) \<le> length (c # g')" by blast
    then show "length g \<le> length g'" by simp
  qed
  then have "lazyUntil lit (g @ lit @ post) = Some g"
    by (rule Cons.IH)
  with ns show ?case by simp
qed

lemma matchHere_sound:
  "matchHere s = Some g \<Longrightarrow> \<exists>post. s = openTag @ g @ closeTag @ post"
proof -
  assume m: "matchHere s = Some g"
  then have st: "startsWith s openTag"
    and l: "lazyUntil closeTag (drop (length openTag) s) = Some g"
    by (auto simp add: matchHere_def split: if_splits)
  from st obtain r where r: "s = openTag @ r"
    by (auto simp add: startsWith_iff)
  with l have "lazyUntil closeTag r = Some g" by simp
  then obtain post where "r = g @ closeTag @ post"
    using lazyUntil_sound by blast
  with r show ?thesis by blast
qed

lemma matchPrompt_here: "matchHere s = Some g \<Longrightarrow> matchPrompt s = Some g"
  by (cases s) simp_all

lemma matchPrompt_skip: "matchHere (c # cs) = None \<Longrightarrow> matchPrompt (c # cs) = matchPrompt cs"
  by simp

lemma matchPrompt_none:
  "(\<nexists>pre g post. s = pre @ openTag @ g @ closeTag @ post) \<Longrightarrow> matchPrompt s = None"
proof (induction s)
  case Nil
  have "matchHere [] = None"
  proof (cases "matchHere []")
    case None then show ?thesis .
  next
    case (Some g)
    then obtain post where "[] = [] @ openTag @ g @ closeTag @ post"
      using matchHere_sound by fastforce
    with Nil.prems show ?thesis by blast
  qed
  then show ?case by simp
next
  case (Cons c cs)
  have h: "matchHere (c # cs) = None"
  proof (cases "matchHere (c # cs)")
    case None then show ?thesis .
  next
    case (Some g)
    then obtain post where "c # cs = [] @ openTag @ g @ closeTag @ post"
      using matchHere_sound by fastforce
    with Cons.prems show ?thesis by blast
  qed
  have "\<nexists>pre g post. cs = pre @ openTag @ g @ closeTag @ post"
  proof
    assume "\<exists>pre g post. cs = pre @ openTag @ g @ closeTag @ post"
    then obtain pre g post where "cs = pre @ openTag @ g @ closeTag @ post" by blast
    then have "c # cs = (c # pre) @ openTag @ g @ closeTag @ post" by simp
    with Cons.prems show False by blast
  qed
  then have "matchPrompt cs = None" by (rule Cons.IH)
  with h show ?case by simp
qed

lemma matchPrompt_first:
  assumes "\<forall>pre' r. pre @ openTag @ g @ closeTag @ post = pre' @ openTag @ r
             \<longrightarrow> length pre \<le> length pre'"
    and "\<forall>g' r. g @ closeTag @ post = g' @ closeTag @ r \<longrightarrow> length g \<le> length g'"
  shows "matchPrompt (pre @ openTag @ g @ closeTag @ post) = Some g"
  using assms(1)
proof (induction pre)
  case Nil
  have "startsWith (openTag @ g @ closeTag @ post) openTag"
    by (auto simp add: startsWith_iff)
  moreover have "lazyUntil closeTag (g @ closeTag @ post) = Some g"
    using assms(2) by (rule lazyUntil_shortest)
  ultimately have "matchHere (openTag @ g @ closeTag @ post) = Some g"
    by (simp add: matchHere_def)
  then show ?case
    by (simp add: matchPrompt_here)
next
  case (Cons c pre)
  have ns: "\<not> startsWith (c # pre @ openTag @ g @ closeTag @ post) openTag"
  proof
    assume "startsWith (c # pre @ openTag @ g @ closeTag @ post) openTag"
    then obtain r where "(c # pre) @ openTag @ g @ closeTag @ post = [] @ openTag @ r"
      by (auto simp add: startsWith_iff)
    with Cons.prems have "length (c # pre) \<le> length ([]::nat list)" by blast
    then show False by simp
  qed
  then have h: "matchHere (c # pre @ openTag @ g @ closeTag @ post) = None"
    by (simp add: matchHere_def)
  have "\<forall>pre' r. pre @ openTag @ g @ closeTag @ post = pre' @ openTag @ r
             \<longrightarrow> length pre \<le> length pre'"
  proof (intro allI impI)
    fix pre' r
    assume "pre @ openTag @ g @ closeTag @ post = pre' @ openTag @ r"
    then have "(c # pre) @ openTag @ g @ closeTag @ post = (c # pre') @ openTag @ r" by simp
    with Cons.prems have "length (c # pre) \<le> length (c # pre')" by blast
    then show "length pre \<le> length pre'" by simp
  qed
  then have "matchPrompt (pre @ openTag @ g @ closeTag @ post) = Some g"
    by (rule Cons.IH)
  with h show ?case by simp
qed


lemma lazyUntil_complete: "lazyUntil lit (g @ lit @ post) \<noteq> None"
proof (induction g)
  case Nil
  have "startsWith (lit @ post) lit"
    by (auto simp add: startsWith_iff)
  then show ?case
    by (simp add: lazyUntil_start)
next
  case (Cons c g)
  then show ?case by simp
qed

lemma matchPrompt_complete:
  "matchPrompt (pre @ openTag @ g @ closeTag @ post) \<noteq> None"
proof (induction pre)
  case Nil
  have "startsWith (openTag @ g @ closeTag @ post) openTag"
    by (auto simp add: startsWith_iff)
  moreover have "lazyUntil closeTag (g @ closeTag @ post) \<noteq> None"
    by (rule lazyUntil_complete)
  ultimately have "matchHere (openTag @ g @ closeTag @ post) \<noteq> None"
    by (simp add: matchHere_def)
  then obtain g' where "matchHere (openTag @ g @ closeTag @ post) = Some g'"
    by blast
  then have "matchPrompt (openTag @ g @ closeTag @ post) = Some g'"
    by (rule matchPrompt_here)
  then show ?case by simp
next
  case (Cons c pre)
  then show ?case
    by (cases "matchHere (c # pre @ openTag @ g @ closeTag @ post)") simp_all
qed

lemma matchPrompt_sound:
  "matchPrompt s = Some g \<Longrightarrow> \<exists>pre post. s = pre @ openTag @ g @ closeTag @ post"
proof (induction s)
  case Nil
  then have "matchHere [] = Some g" by simp
  then obtain post where "[] = [] @ openTag @ g @ closeTag @ post"
    using matchHere_sound by fastforce
  then show ?case by blast
next
  case (Cons c cs)
  show ?case
  proof (cases "matchHere (c # cs)")
    case None
    with Cons.prems have "matchPrompt cs = Some g" by simp
    then obtain pre post where "cs = pre @ openTag @ g @ closeTag @ post"
      using Cons.IH by blast
    then have "c # cs = (c # pre) @ openTag @ g @ closeTag @ post" by simp
    then show ?thesis by blast
  next
    case (Some g')
    with Cons.prems have "g' = g" by simp
    with Some obtain post where "c # cs = [] @ openTag @ g @ closeTag @ post"
      using matchHere_sound by fastforce
    then show ?thesis by blast
  qed
qed

lemma handleCopyPrompt_match:
  "matchPrompt (html cr) = Some g \<Longrightarrow>
     handleCopyPrompt (Some cr) = Some (if g = [] then fallbackPrompt (name cr) else trim g)"
  by (simp add: handleCopyPrompt_def truthy_def)

lemma handleCopyPrompt_no_match:
  "matchPrompt (html cr) = None \<Longrightarrow>
     handleCopyPrompt (Some cr) = Some (fallbackPrompt (name cr))"
  by (simp add: handleCopyPrompt_def)

text \<open>
  C6 as stated fails: for a document whose prompt tag is empty, the copied text is the
  fallback sentence, not the trimmed content of the tag, which is the empty string.
\<close>

theorem copy_prompt_empty_tag_counterexample:
  "html emptyTagCreation = openTag @ [] @ closeTag
   \<and> handleCopyPrompt (Some emptyTagCreation) = Some (fallbackPrompt (ascii ''demo''))
   \<and> handleCopyPrompt (Some emptyTagCreation) \<noteq> Some (trim [])"
proof -
  have "matchPrompt ([] @ openTag @ [] @ closeTag @ []) = Some []"
    by (rule matchPrompt_first) simp_all
  then have "matchPrompt (html emptyTagCreation) = Some []"
    by (simp add: emptyTagCreation_def)
  then have "handleCopyPrompt (Some emptyTagCreation)
      = Some (fallbackPrompt (name emptyTagCreation))"
    by (simp add: handleCopyPrompt_match)
  moreover have "fallbackPrompt (ascii ''demo'') \<noteq> trim []"
    by (simp add: fallbackPrompt_def trim_def ascii_def)
  ultimately show ?thesis
    by (simp add: emptyTagCreation_def)
qed

text \<open>
  C6, amended. If the document has no substring of the form of the prompt tag, the
  copied text is the fallback sentence, which carries the creation's name. If it has
  one, the pattern matches at the leftmost opening tag and up to the first closing tag
  after it, and the copied text is the trimmed content of that tag when the content is
  not empty, and the fallback sentence when it is empty.
\<close>

theorem copy_prompt_text:
  "((\<nexists>pre g post. html cr = pre @ openTag @ g @ closeTag @ post)
      \<longrightarrow> handleCopyPrompt (Some cr) = Some (fallbackPrompt (name cr)))
   \<and> ((\<exists>pre g post. html cr = pre @ openTag @ g @ closeTag @ post)
      \<longrightarrow> (\<exists>pre g post. html cr = pre @ openTag @ g @ closeTag @ post
            \<and> handleCopyPrompt (Some cr)
                = Some (if g = [] then fallbackPrompt (name cr) else trim g)))
   \<and> (html cr = pre @ openTag @ g @ closeTag @ post
       \<and> (\<forall>pre' r. html cr = pre' @ openTag @ r \<longrightarrow> length pre \<le> length pre')
       \<and> (\<forall>g' r. g @ closeTag @ post = g' @ closeTag @ r \<longrightarrow> length g \<le> length g')
      \<longrightarrow> handleCopyPrompt (Some cr)
            = Some (if g = [] then fallbackPrompt (name cr) else trim g))
   \<and> fallbackPrompt (name cr)
       = ascii ''Create a product demo video for '' @ name cr
         @ ascii ''. Include cursor animations and voiceover script.''"
proof (intro conjI impI)
  assume "\<nexists>pre g post. html cr = pre @ openTag @ g @ closeTag @ post"
  then have "matchPrompt (html cr) = None"
    by (rule matchPrompt_none)
  then show "handleCopyPrompt (Some cr) = Some (fallbackPrompt (name cr))"
    by (rule handleCopyPrompt_no_match)
next
  assume "\<exists>pre g post. html cr = pre @ openTag @ g @ closeTag @ post"
  then obtain pre0 g0 post0 where "html cr = pre0 @ openTag @ g0 @ closeTag @ post0"
    by blast
  then have "matchPrompt (html cr) \<noteq> None"
    by (simp add: matchPrompt_complete)
  then obtain g1 where m: "matchPrompt (html cr) = Some g1"
    by blast
  then obtain pre1 post1 where "html cr = pre1 @ openTag @ g1 @ closeTag @ post1"
    using matchPrompt_sound by blast
  moreover from m have "handleCopyPrompt (Some cr)
      = Some (if g1 = [] then fallbackPrompt (name cr) else trim g1)"
    by (rule handleCopyPrompt_match)
  ultimately show "\<exists>pre g post. html cr = pre @ openTag @ g @ closeTag @ post
      \<and> handleCopyPrompt (Some cr) = Some (if g = [] then fallbackPrompt (name cr) else trim g)"
    by blast
next
  assume a: "html cr = pre @ openTag @ g @ closeTag @ post
       \<and> (\<forall>pre' r. html cr = pre' @ openTag @ r \<longrightarrow> length pre \<le> length pre')
       \<and> (\<forall>g' r. g @ closeTag @ post = g' @ closeTag @ r \<longrightarrow> length g \<le> length g')"
  then have "matchPrompt (pre @ openTag @ g @ closeTag @ post) = Some g"
    by (intro matchPrompt_first) simp_all
  with a have "matchPrompt (html cr) = Some g"
    by simp
  then show "handleCopyPrompt (Some cr)
      = Some (if g = [] then fallbackPrompt (name cr) else trim g)"
    by (rule handleCopyPrompt_match)
next
  show "fallbackPrompt (name cr)
       = ascii ''Create a product demo video for '' @ name cr
         @ ascii ''. Include cursor animations and voiceover script.''"
    by (simp add: fallbackPrompt_def)
qed

theorem copy_prompt_text_witness:
  "handleCopyPrompt (Some linearCreation) = Some (fallbackPrompt (ascii ''Linear.app Demo!''))
   \<and> handleCopyPrompt (Some taggedCreation) = Some (ascii ''x'')"
proof -
  have n: "\<nexists>pre g post. html linearCreation = pre @ openTag @ g @ closeTag @ post"
    by (simp add: linearCreation_def openTag_def ascii_def)
  have h: "html taggedCreation = [] @ openTag @ ascii '' x'' @ closeTag @ []"
    by (simp add: taggedCreation_def)
  have l: "\<forall>pre' r. html taggedCreation = pre' @ openTag @ r \<longrightarrow> length ([]::nat list) \<le> length pre'"
    by simp
  have s: "\<forall>g' r. ascii '' x'' @ closeTag @ [] = g' @ closeTag @ r
      \<longrightarrow> length (ascii '' x'') \<le> length g'"
  proof (intro allI impI)
    fix g' r
    assume e: "ascii '' x'' @ closeTag @ [] = g' @ closeTag @ r"
    show "length (ascii '' x'') \<le> length g'"
    proof (cases g')
      case Nil
      with e show ?thesis by (simp add: closeTag_def ascii_def)
    next
      case (Cons a t)
      note outer = Cons
      show ?thesis
      proof (cases t)
        case Nil
        with e outer show ?thesis by (simp add: closeTag_def ascii_def)
      next
        case (Cons b t')
        with outer show ?thesis by (simp add: ascii_def)
      qed
    qed
  qed
  have t: "trim (ascii '' x'') = ascii ''x''" "ascii '' x'' \<noteq> []"
    by (simp_all add: trim_def ascii_def isWhiteSpace_def)
  have nm: "name linearCreation = ascii ''Linear.app Demo!''"
    by (simp add: linearCreation_def)
  from copy_prompt_text [of linearCreation] n nm
  have 1: "handleCopyPrompt (Some linearCreation) = Some (fallbackPrompt (ascii ''Linear.app Demo!''))"
    by simp
  from copy_prompt_text [of taggedCreation "[]" "ascii '' x''" "[]"] h l s
  have "handleCopyPrompt (Some taggedCreation)
      = Some (if ascii '' x'' = [] then fallbackPrompt (name taggedCreation) else trim (ascii '' x''))"
    by blast
  with t have 2: "handleCopyPrompt (Some taggedCreation) = Some (ascii ''x'')"
    by simp
  from 1 2 show ?thesis by simp
qed

end
